theory Spec2Isabelle
  imports Main "HOL-Library.Sublist"
begin

section \<open>The texts of \<^verbatim>\<open>fix-update-layer.py\<close>\<close>

text \<open>
  The script is a module body without functions: it reads
  \<^verbatim>\<open>src/contexts/StudioContext.tsx\<close>, substitutes a regular expression, and either
  writes the file back or prints diagnostics.  Python strings are modelled as
  \<^typ>\<open>string\<close>; the three non-ASCII characters of the status lines are written as
  their UTF-8 bytes.  The pattern is a raw string, so each backslash of the source is a
  character of the pattern.
\<close>

definition bsl :: string where
  "bsl = [CHR 0x5C]"

definition target :: string where
  "target = ''src/contexts/StudioContext.tsx''"

definition old_pattern :: string where
  "old_pattern =
     ''  const updateLayer = useCallback'' @ bsl @ ''('' @ bsl @ ''(id: string, updates: Partial<Layer>'' @ bsl @ '') => '' @ bsl @ ''{\<newline>'' @
     ''    setLayers'' @ bsl @ ''(prev =>\<newline>'' @
     ''      prev'' @ bsl @ ''.map'' @ bsl @ ''(layer =>\<newline>'' @
     ''        layer'' @ bsl @ ''.id === id '' @ bsl @ ''? '' @ bsl @ ''{ '' @ bsl @ ''.'' @ bsl @ ''.'' @ bsl @ ''.layer, '' @ bsl @ ''.'' @ bsl @ ''.'' @ bsl @ ''.updates '' @ bsl @ ''} : layer\<newline>'' @
     ''      '' @ bsl @ '')\<newline>'' @
     ''    '' @ bsl @ '');\<newline>'' @
     ''    setIsDirty'' @ bsl @ ''(true'' @ bsl @ '');\<newline>'' @
     ''  '' @ bsl @ ''}, '' @ bsl @ ''['' @ bsl @ '']'' @ bsl @ '');''"

definition new_code :: string where
  "new_code =
     ''  const updateLayer = useCallback((id: string, updates: Partial<Layer>) => {\<newline>'' @
     ''    setLayers(prev =>\<newline>'' @
     ''      prev.map(layer => {\<newline>'' @
     ''        if (layer.id !== id) return layer;\<newline>'' @
     ''\<newline>'' @
     ''        // Auto-increment version if canvas is being updated to force React re-renders\<newline>'' @
     ''        // This ensures that even when the canvas reference stays the same but pixels change,\<newline>'' @
     ''        // React will detect the update and trigger composition\<newline>'' @
     ''        const newUpdates = updates.canvas\<newline>'' @
     ''          ? { ...updates, version: (updates.version ?? (layer.version || 0) + 1) }\<newline>'' @
     ''          : updates;\<newline>'' @
     ''\<newline>'' @
     ''        return { ...layer, ...newUpdates };\<newline>'' @
     ''      })\<newline>'' @
     ''    );\<newline>'' @
     ''    setIsDirty(true);\<newline>'' @
     ''  }, []);''"

definition signature :: string where
  "signature = ''const updateLayer = useCallback((id: string, updates: Partial<Layer>)''"

definition marker :: string where
  "marker = ''const newUpdates = updates.canvas''"

text \<open>The five lines the script can print (U+2713, U+26A0, U+2717 in UTF-8).\<close>

definition msg_fixed :: string where
  "msg_fixed = [CHR 0xE2, CHR 0x9C, CHR 0x93] @ '' Fixed updateLayer function''"

definition msg_not_found :: string where
  "msg_not_found = [CHR 0xE2, CHR 0x9A, CHR 0xA0] @ '' Pattern not found - trying manual search...''"

definition msg_found :: string where
  "msg_found = ''  Found updateLayer function''"

definition msg_already :: string where
  "msg_already = ''  '' @ [CHR 0xE2, CHR 0x9C, CHR 0x93] @ '' Already patched!''"

definition msg_manual :: string where
  "msg_manual = ''  '' @ [CHR 0xE2, CHR 0x9C, CHR 0x97] @ '' Not patched - manual intervention needed''"

text \<open>
  The fragment the pattern is meant to describe: the pattern with every escaping
  backslash removed.  It is the literal side of the comparison with the regular
  expression, and is not used by the script itself.
\<close>

definition old_fragment :: string where
  "old_fragment =
     ''  const updateLayer = useCallback((id: string, updates: Partial<Layer>) => {\<newline>'' @
     ''    setLayers(prev =>\<newline>'' @
     ''      prev.map(layer =>\<newline>'' @
     ''        layer.id === id ? { ...layer, ...updates } : layer\<newline>'' @
     ''      )\<newline>'' @
     ''    );\<newline>'' @
     ''    setIsDirty(true);\<newline>'' @
     ''  }, []);''"

section \<open>The part of Python's \<^verbatim>\<open>re\<close> that the script uses\<close>

text \<open>
  A pattern is compiled to a sequence of atoms.  The model covers ordinary characters,
  a backslash before a character that is not an ASCII letter or digit (that character,
  literally), \<^verbatim>\<open>.\<close>, \<^verbatim>\<open>^\<close> and \<^verbatim>\<open>$\<close>.  Repetition, classes, groups, alternation and the
  special sequences (a backslash before a letter or digit) are outside the model:
  \<open>compile\<close> answers \<open>None\<close> for them.
\<close>

datatype atom = Lit char | Dot | Bol | Eol

definition is_alnum :: "char \<Rightarrow> bool" where
  "is_alnum c \<longleftrightarrow>
     (let n = of_char c :: nat
      in (48 \<le> n \<and> n \<le> 57) \<or> (65 \<le> n \<and> n \<le> 90) \<or> (97 \<le> n \<and> n \<le> 122))"

definition is_operator :: "char \<Rightarrow> bool" where
  "is_operator c \<longleftrightarrow> c \<in> set ''*+?{}[]()|''"

fun compile :: "string \<Rightarrow> atom list option" where
  "compile [] = Some []"
| "compile [c] =
     (if c = CHR 0x5C \<or> is_operator c then None
      else if c = CHR ''.'' then Some [Dot]
      else if c = CHR ''^'' then Some [Bol]
      else if c = CHR ''$'' then Some [Eol]
      else Some [Lit c])"
| "compile (c # d # ds) =
     (if c = CHR 0x5C then
        (if is_alnum d then None else map_option ((#) (Lit d)) (compile ds))
      else if is_operator c then None
      else if c = CHR ''.'' then map_option ((#) Dot) (compile (d # ds))
      else if c = CHR ''^'' then map_option ((#) Bol) (compile (d # ds))
      else if c = CHR ''$'' then map_option ((#) Eol) (compile (d # ds))
      else map_option ((#) (Lit c)) (compile (d # ds)))"

text \<open>
  Matching at one position.  \<open>prev\<close> is the character before the position (\<open>None\<close> at
  the start of the text), which \<^verbatim>\<open>^\<close> looks at; the flag is \<^verbatim>\<open>re.MULTILINE\<close>.  The atoms have
  no alternatives, so a match at a position is unique; the result is the text after it.
\<close>

fun match_at :: "bool \<Rightarrow> atom list \<Rightarrow> char option \<Rightarrow> string \<Rightarrow> string option" where
  "match_at ml [] prev s = Some s"
| "match_at ml (Lit c # as) prev s =
     (case s of [] \<Rightarrow> None
      | d # ds \<Rightarrow> if d = c then match_at ml as (Some d) ds else None)"
| "match_at ml (Dot # as) prev s =
     (case s of [] \<Rightarrow> None
      | d # ds \<Rightarrow> if d \<noteq> CHR 0x0A then match_at ml as (Some d) ds else None)"
| "match_at ml (Bol # as) prev s =
     (if prev = None \<or> (ml \<and> prev = Some (CHR 0x0A)) then match_at ml as prev s else None)"
| "match_at ml (Eol # as) prev s =
     (if (case s of [] \<Rightarrow> True | d # ds \<Rightarrow> d = CHR 0x0A \<and> (ml \<or> ds = []))
      then match_at ml as prev s else None)"

text \<open>\<^verbatim>\<open>re.search\<close>, as a truth value: is there a position where the atoms match?\<close>

fun re_search :: "bool \<Rightarrow> atom list \<Rightarrow> char option \<Rightarrow> string \<Rightarrow> bool" where
  "re_search ml as prev [] = (match_at ml as prev [] \<noteq> None)"
| "re_search ml as prev (c # cs) =
     (match_at ml as prev (c # cs) \<noteq> None \<or> re_search ml as (Some c) cs)"

text \<open>
  \<^verbatim>\<open>re.sub\<close> with the default count: scan from the left; at a match, emit the
  replacement and continue after the match; otherwise copy one character.  After an
  empty match the next character is copied, so that the scan advances.
\<close>

function re_sub :: "bool \<Rightarrow> atom list \<Rightarrow> string \<Rightarrow> char option \<Rightarrow> string \<Rightarrow> string" where
  "re_sub ml as repl prev s =
     (case match_at ml as prev s of
        Some rest \<Rightarrow>
          if length rest < length s
          then repl @ re_sub ml as repl (Some (s ! (length s - length rest - 1))) rest
          else (case s of [] \<Rightarrow> repl
                | c # cs \<Rightarrow> repl @ c # re_sub ml as repl (Some c) cs)
      | None \<Rightarrow>
          (case s of [] \<Rightarrow> []
           | c # cs \<Rightarrow> c # re_sub ml as repl (Some c) cs))"
  by pat_completeness auto
termination
  by (relation "measure (\<lambda>(ml, as, repl, prev, s). length s)") auto

text \<open>
  A replacement string is a template in which a backslash starts an escape or a group
  reference.  Only templates without a backslash are modelled; they stand for
  themselves.
\<close>

definition expand_template :: "string \<Rightarrow> string option" where
  "expand_template repl = (if CHR 0x5C \<in> set repl then None else Some repl)"

definition py_re_sub :: "string \<Rightarrow> string \<Rightarrow> string \<Rightarrow> bool \<Rightarrow> string option" where
  "py_re_sub pattern repl text ml =
     (case compile pattern of
        None \<Rightarrow> None
      | Some as \<Rightarrow>
          (case expand_template repl of
             None \<Rightarrow> None
           | Some r \<Rightarrow> Some (re_sub ml as r None text)))"

definition py_re_search :: "string \<Rightarrow> string \<Rightarrow> bool \<Rightarrow> bool option" where
  "py_re_search pattern text ml = map_option (\<lambda>as. re_search ml as None text) (compile pattern)"

text \<open>Python's \<^verbatim>\<open>needle in text\<close> on strings.\<close>

fun starts_with :: "string \<Rightarrow> string \<Rightarrow> bool" where
  "starts_with [] s = True"
| "starts_with (c # cs) [] = False"
| "starts_with (c # cs) (d # ds) = (c = d \<and> starts_with cs ds)"

fun str_in :: "string \<Rightarrow> string \<Rightarrow> bool" where
  "str_in needle [] = (needle = [])"
| "str_in needle (c # cs) = (starts_with needle (c # cs) \<or> str_in needle cs)"

section \<open>The script\<close>

text \<open>
  The outside world is the file system and standard output.  A file is modelled by the
  text that reading it in text mode with UTF-8 yields, or by the reason why reading
  fails: \<open>Text\<close> is a file the process may read and write, \<open>ReadOnly\<close> one it may read
  but not write, \<open>Unreadable\<close> one it may neither read nor write, \<open>Undecodable\<close> a
  writable file whose bytes are not UTF-8.  Opening for writing raises on a file that
  may not be written and leaves it as it is; otherwise the write replaces the whole
  text (and creates the file where there is none).  Every write is also recorded in a
  log, so that a run without a write differs from a run that writes the same text
  back.
\<close>

datatype error = FileNotFoundError | PermissionError | UnicodeDecodeError | ReError

datatype fnode = Text string | ReadOnly string | Unreadable | Undecodable

record world =
  files :: "string \<rightharpoonup> fnode"
  writes :: "(string \<times> string) list"
  stdout :: "string list"

definition open_read :: "string \<Rightarrow> world \<Rightarrow> error + string" where
  "open_read path w =
     (case files w path of
        None \<Rightarrow> Inl FileNotFoundError
      | Some Unreadable \<Rightarrow> Inl PermissionError
      | Some Undecodable \<Rightarrow> Inl UnicodeDecodeError
      | Some (Text s) \<Rightarrow> Inr s
      | Some (ReadOnly s) \<Rightarrow> Inr s)"

definition open_write :: "string \<Rightarrow> string \<Rightarrow> world \<Rightarrow> error + world" where
  "open_write path s w =
     (case files w path of
        Some (ReadOnly t) \<Rightarrow> Inl PermissionError
      | Some Unreadable \<Rightarrow> Inl PermissionError
      | _ \<Rightarrow> Inr (w\<lparr>files := (files w)(path \<mapsto> Text s),
                      writes := writes w @ [(path, s)]\<rparr>))"

definition print :: "string \<Rightarrow> world \<Rightarrow> world" where
  "print line w = w\<lparr>stdout := stdout w @ [line]\<rparr>"

definition new_content :: "string \<Rightarrow> string option" where
  "new_content content = py_re_sub old_pattern new_code content True"

text \<open>
  The module body.  The result is the uncaught exception, if any, and the world the run
  leaves behind: an exception of the read or of the write ends the run where it is
  raised.  \<open>ReError\<close> stands for a pattern or template outside the modelled part
  of \<^verbatim>\<open>re\<close>; \<open>new_content_literal\<close> below shows that the script never takes that branch.
\<close>

definition main :: "world \<Rightarrow> error option \<times> world" where
  "main w =
     (case open_read target w of
        Inl e \<Rightarrow> (Some e, w)
      | Inr content \<Rightarrow>
          (case new_content content of
             None \<Rightarrow> (Some ReError, w)
           | Some nc \<Rightarrow>
               if nc \<noteq> content then
                 (case open_write target nc w of
                    Inl e \<Rightarrow> (Some e, w)
                  | Inr w' \<Rightarrow> (None, print msg_fixed w'))
               else
                 (let w1 = print msg_not_found w in
                  if str_in signature content then
                    (let w2 = print msg_found w1 in
                     if str_in marker content
                     then (None, print msg_already w2)
                     else (None, print msg_manual w2))
                  else (None, w1))))"

text \<open>
  Two worlds whose only file is the target, with the given text: writable, and
  read-only.
\<close>

definition world_of :: "string \<Rightarrow> world" where
  "world_of content = \<lparr>files = [target \<mapsto> Text content], writes = [], stdout = []\<rparr>"

definition read_only_world :: "string \<Rightarrow> world" where
  "read_only_world content =
     \<lparr>files = [target \<mapsto> ReadOnly content], writes = [], stdout = []\<rparr>"

section \<open>Literal replacement\<close>

text \<open>
  Python's \<^verbatim>\<open>text.replace(old, new)\<close>: every occurrence of \<open>old\<close>, found from the left
  and without overlap, becomes \<open>new\<close>.  This is the literal side of the comparison with
  \<open>re_sub\<close>.
\<close>

function str_replace :: "string \<Rightarrow> string \<Rightarrow> string \<Rightarrow> string" where
  "str_replace old new [] = (if old = [] then new else [])"
| "str_replace old new (c # cs) =
     (if old = [] then new @ c # str_replace old new cs
      else if starts_with old (c # cs)
      then new @ str_replace old new (drop (length old) (c # cs))
      else c # str_replace old new cs)"
  by pat_completeness auto
termination
  by (relation "measure (\<lambda>(old, new, s). length s)") auto

text \<open>\<^verbatim>\<open>sep.join(parts)\<close>.\<close>

fun join :: "string \<Rightarrow> string list \<Rightarrow> string" where
  "join sep [] = []"
| "join sep [p] = p"
| "join sep (p # q # ps) = p @ sep @ join sep (q # ps)"

text \<open>No non-empty suffix of the first text is a prefix of the second.\<close>

fun overlap_free :: "string \<Rightarrow> string \<Rightarrow> bool" where
  "overlap_free [] ys = True"
| "overlap_free (x # xs) ys = (\<not> starts_with (x # xs) ys \<and> overlap_free xs ys)"

section \<open>The logic of the replacement text\<close>

text \<open>
  The replacement is TypeScript.  Its expression
  \<^verbatim>\<open>updates.canvas ? { ...updates, version: (updates.version ?? (layer.version || 0) + 1) } : updates\<close>
  is modelled over JavaScript values.  An object is a map from property names to
  values; reading a missing property gives \<open>undefined\<close>.  Numbers are the integers that
  JavaScript represents exactly; \<open>js_plus\<close> answers \<open>None\<close> where the sum leaves that range
  or an operand is not a number (the coercions of \<^verbatim>\<open>+\<close> are outside the model).
\<close>

datatype jsval = JUndefined | JNull | JBool bool | JNum int | JNaN | JStr string | JObj nat

type_synonym jsobj = "string \<rightharpoonup> jsval"

definition js_get :: "jsobj \<Rightarrow> string \<Rightarrow> jsval" where
  "js_get obj k = (case obj k of None \<Rightarrow> JUndefined | Some v \<Rightarrow> v)"

fun truthy :: "jsval \<Rightarrow> bool" where
  "truthy JUndefined = False"
| "truthy JNull = False"
| "truthy (JBool b) = b"
| "truthy (JNum n) = (n \<noteq> 0)"
| "truthy JNaN = False"
| "truthy (JStr s) = (s \<noteq> [])"
| "truthy (JObj r) = True"

fun nullish :: "jsval \<Rightarrow> bool" where
  "nullish JUndefined = True"
| "nullish JNull = True"
| "nullish v = False"

definition safe_integer :: "int \<Rightarrow> bool" where
  "safe_integer n \<longleftrightarrow> - 9007199254740991 \<le> n \<and> n \<le> 9007199254740991"

fun js_plus :: "jsval \<Rightarrow> jsval \<Rightarrow> jsval option" where
  "js_plus (JNum a) (JNum b) =
     (if safe_integer a \<and> safe_integer b \<and> safe_integer (a + b)
      then Some (JNum (a + b)) else None)"
| "js_plus x y = None"

fun strict_eq :: "jsval \<Rightarrow> jsval \<Rightarrow> bool" where
  "strict_eq JNaN y = False"
| "strict_eq x JNaN = False"
| "strict_eq x y = (x = y)"

definition newUpdates :: "jsobj \<Rightarrow> jsobj \<Rightarrow> jsobj option" where
  "newUpdates layer updates =
     (if truthy (js_get updates ''canvas'') then
        (case (if nullish (js_get updates ''version'')
               then js_plus (if truthy (js_get layer ''version'')
                             then js_get layer ''version'' else JNum 0) (JNum 1)
               else Some (js_get updates ''version'')) of
           None \<Rightarrow> None
         | Some v \<Rightarrow> Some (updates(''version'' \<mapsto> v)))
      else Some updates)"

text \<open>
  The function given to \<^verbatim>\<open>prev.map\<close>: a layer with another id is returned as it is, the
  layer with the id is overlaid with the new update.
\<close>

definition map_layer :: "jsval \<Rightarrow> jsobj \<Rightarrow> jsobj \<Rightarrow> jsobj option" where
  "map_layer ident updates layer =
     (if \<not> strict_eq (js_get layer ''id'') ident then Some layer
      else map_option (\<lambda>nu. layer ++ nu) (newUpdates layer updates))"

section \<open>Facts about matching and replacing\<close>

declare re_sub.simps [simp del]

lemma compile_old_pattern: "compile old_pattern = Some (map Lit old_fragment)"
  by (simp add: old_pattern_def old_fragment_def bsl_def is_alnum_def is_operator_def)

lemma starts_with_prefix: "starts_with xs s \<longleftrightarrow> prefix xs s"
  by (induction xs s rule: starts_with.induct) auto

lemma str_in_sublist: "str_in xs s \<longleftrightarrow> sublist xs s"
  by (induction s) (auto simp: starts_with_prefix sublist_Cons_right)

lemma match_at_lits:
  "match_at ml (map Lit xs) prev s = (if prefix xs s then Some (drop (length xs) s) else None)"
proof (induction xs arbitrary: prev s)
  case Nil
  show ?case by simp
next
  case (Cons x xs)
  show ?case
    by (cases s) (simp_all add: Cons.IH)
qed

lemma re_sub_lits: "re_sub ml (map Lit xs) repl prev s = str_replace xs repl s"
proof (induction xs repl s arbitrary: prev rule: str_replace.induct)
  case (1 old new)
  show ?case
    by (cases old) (simp_all add: re_sub.simps [of _ _ _ _ "[]"] match_at_lits)
next
  case (2 old new c cs)
  show ?case
  proof (cases "old = []")
    case True
    with 2 show ?thesis
      by (simp add: re_sub.simps [of _ _ _ _ "c # cs"])
  next
    case False
    show ?thesis
    proof (cases "prefix old (c # cs)")
      case True
      with False have "length (drop (length old) (c # cs)) < length (c # cs)"
        by simp
      with 2 False True show ?thesis
        by (simp add: re_sub.simps [of _ _ _ _ "c # cs"] match_at_lits starts_with_prefix)
    next
      case nomatch: False
      with 2 False show ?thesis
        by (simp add: re_sub.simps [of _ _ _ _ "c # cs"] match_at_lits starts_with_prefix)
    qed
  qed
qed

lemma re_search_lits: "re_search ml (map Lit xs) prev s \<longleftrightarrow> sublist xs s"
  by (induction s arbitrary: prev) (auto simp: match_at_lits sublist_Cons_right)

lemma overlap_freeD: "overlap_free xs ys \<Longrightarrow> k < length xs \<Longrightarrow> \<not> prefix (drop k xs) ys"
proof (induction xs arbitrary: k)
  case Nil
  then show ?case by simp
next
  case (Cons x xs)
  then show ?case
    by (cases k) (auto simp: starts_with_prefix)
qed

lemma str_replace_prefix_reflect:
  "old \<noteq> [] \<Longrightarrow> length old \<le> length new \<Longrightarrow> overlap_free (tl old) new \<Longrightarrow>
   length u < length old \<Longrightarrow> prefix old (u @ str_replace old new t) \<Longrightarrow> prefix old (u @ t)"
proof (induction old new t arbitrary: u rule: str_replace.induct)
  case (1 old new)
  then show ?case by simp
next
  case (2 old new c cs)
  note P = "2.prems" and H = "2.IH"
  show ?case
  proof (cases "prefix old (c # cs)")
    case True
    show ?thesis
    proof (cases "u = []")
      case True
      with \<open>prefix old (c # cs)\<close> show ?thesis by simp
    next
      case False
      from P(1) True have sr: "str_replace old new (c # cs) = new @ str_replace old new (drop (length old) (c # cs))"
        by (simp add: starts_with_prefix)
      from P(5) sr obtain zs where zs: "u @ new @ str_replace old new (drop (length old) (c # cs)) = old @ zs"
        by (auto simp: prefix_def)
      have "take (length u) (old @ zs) = u"
        using zs [symmetric] by simp
      with P(4) have u: "u = take (length u) old" by simp
      have "drop (length u) (u @ new @ str_replace old new (drop (length old) (c # cs))) = drop (length u) (old @ zs)"
        using zs by simp
      with P(4) have d: "new @ str_replace old new (drop (length old) (c # cs)) = drop (length u) old @ zs"
        by simp
      have "length (drop (length u) old) \<le> length new"
        using P(2) by simp
      with d have "prefix (drop (length u) old) new"
        by (metis append_eq_append_conv_if prefixI take_is_prefix prefix_order.trans)
      moreover have "drop (length u) old = drop (length u - 1) (tl old)"
        using False by (cases u) (simp_all add: drop_Suc)
      moreover have "length u - 1 < length (tl old)"
        using False P(4) by (cases u) simp_all
      ultimately show ?thesis
        using overlap_freeD [OF P(3)] by metis
    qed
  next
    case False
    with P(1) have sr: "str_replace old new (c # cs) = c # str_replace old new cs"
      by (simp add: starts_with_prefix)
    show ?thesis
    proof (cases "Suc (length u) < length old")
      case True
      have "prefix old ((u @ [c]) @ cs)"
      proof (rule H(3))
        show "old \<noteq> []" by fact
        show "\<not> starts_with old (c # cs)" using False by (simp add: starts_with_prefix)
        show "old \<noteq> []" by fact
        show "length old \<le> length new" by fact
        show "overlap_free (tl old) new" by fact
        show "length (u @ [c]) < length old" using True by simp
        show "prefix old ((u @ [c]) @ str_replace old new cs)" using P(5) sr by simp
      qed
      then show ?thesis by simp
    next
      case False
      with P(4) have "length (u @ [c]) = length old" by simp
      moreover from P(5) sr have "prefix old ((u @ [c]) @ str_replace old new cs)" by simp
      ultimately have "old = u @ [c]"
        by (metis append_eq_append_conv prefix_def)
      then show ?thesis by simp
    qed
  qed
qed

lemma str_replace_no_old:
  "old \<noteq> [] \<Longrightarrow> length old \<le> length new \<Longrightarrow> overlap_free (tl old) new \<Longrightarrow>
   overlap_free (tl (rev old)) (rev new) \<Longrightarrow> \<not> sublist old new \<Longrightarrow>
   \<not> sublist old (str_replace old new s)"
proof (induction old new s rule: str_replace.induct)
  case (1 old new)
  then show ?case by simp
next
  case (2 old new c cs)
  note P = "2.prems" and H = "2.IH"
  show ?case
  proof (cases "prefix old (c # cs)")
    case True
    let ?R = "str_replace old new (drop (length old) (c # cs))"
    from P(1) True have sr: "str_replace old new (c # cs) = new @ ?R"
      by (simp add: starts_with_prefix)
    have IH: "\<not> sublist old ?R"
      using H(2) True P by (simp add: starts_with_prefix)
    show ?thesis
    proof
      assume "sublist old (str_replace old new (c # cs))"
      with sr IH P(5) obtain xs1 xs2 where
        x: "old = xs1 @ xs2" "suffix xs1 new" "prefix xs2 ?R"
        by (auto simp: sublist_append)
      from x IH have n1: "xs1 \<noteq> []" by auto
      from x P(5) have n2: "xs2 \<noteq> []" by auto
      let ?k = "length xs2"
      have "rev old = rev xs2 @ rev xs1" using x by simp
      then have "drop ?k (rev old) = rev xs1" by simp
      moreover have "drop ?k (rev old) = drop (?k - 1) (tl (rev old))"
        using n2 by (cases xs2) (simp_all add: drop_Suc)
      moreover have "?k - 1 < length (tl (rev old))"
        using n1 n2 x by (cases xs2) simp_all
      moreover have "prefix (rev xs1) (rev new)"
        using x by (simp add: suffix_to_prefix)
      ultimately show False
        using overlap_freeD [OF P(4)] by metis
    qed
  next
    case False
    with P(1) have sr: "str_replace old new (c # cs) = c # str_replace old new cs"
      by (simp add: starts_with_prefix)
    have IH: "\<not> sublist old (str_replace old new cs)"
      using H(3) False P by (simp add: starts_with_prefix)
    have "\<not> prefix old (str_replace old new (c # cs))"
      using str_replace_prefix_reflect [OF P(1) P(2) P(3), of "[]" "c # cs"] False P(1) by auto
    with IH sr show ?thesis
      by (simp add: sublist_Cons_right)
  qed
qed

lemma str_replace_length_le:
  "old \<noteq> [] \<Longrightarrow> length old \<le> length new \<Longrightarrow> length s \<le> length (str_replace old new s)"
proof (induction old new s rule: str_replace.induct)
  case (1 old new)
  then show ?case by simp
next
  case (2 old new c cs)
  note P = "2.prems" and H = "2.IH"
  show ?case
  proof (cases "starts_with old (c # cs)")
    case True
    then have "length old \<le> length (c # cs)"
      using prefix_length_le [of old "c # cs"] by (simp add: starts_with_prefix)
    with H(2) P True show ?thesis by simp
  next
    case False
    with H(3) P show ?thesis by simp
  qed
qed

lemma str_replace_leftmost:
  "old \<noteq> [] \<Longrightarrow> sublist old s \<Longrightarrow>
   \<exists>pre post. s = pre @ old @ post \<and> \<not> sublist old (pre @ butlast old) \<and>
     str_replace old new s = pre @ new @ str_replace old new post"
proof (induction old new s rule: str_replace.induct)
  case (1 old new)
  then show ?case by simp
next
  case (2 old new c cs)
  note P = "2.prems" and H = "2.IH"
  have short: "\<not> sublist old (butlast old)"
    using P(1) sublist_length_le [of old "butlast old"] by (cases old) auto
  show ?case
  proof (cases "prefix old (c # cs)")
    case True
    then obtain post where post: "c # cs = old @ post"
      by (auto simp: prefix_def)
    then have "drop (length old) (c # cs) = post"
      by (metis append_eq_conv_conj)
    with True P(1) have "str_replace old new (c # cs) = [] @ new @ str_replace old new post"
      by (simp add: starts_with_prefix)
    with post short show ?thesis
      by (metis append_Nil)
  next
    case False
    with P(2) have "sublist old cs"
      by (simp add: sublist_Cons_right)
    with H(3) P(1) False obtain pre post where
      pp: "cs = pre @ old @ post" "\<not> sublist old (pre @ butlast old)"
        "str_replace old new cs = pre @ new @ str_replace old new post"
      by (auto simp: starts_with_prefix)
    have "\<not> prefix old (c # pre @ butlast old)"
    proof
      assume "prefix old (c # pre @ butlast old)"
      then have "prefix old ((c # pre @ butlast old) @ [last old] @ post)"
        using prefix_prefix by blast
      moreover have "(c # pre @ butlast old) @ [last old] @ post = c # cs"
        using pp(1) P(1) by simp
      ultimately show False using False by simp
    qed
    with pp(2) have "\<not> sublist old ((c # pre) @ butlast old)"
      by (simp add: sublist_Cons_right)
    moreover have "c # cs = (c # pre) @ old @ post"
      using pp(1) by simp
    moreover have "str_replace old new (c # cs) = (c # pre) @ new @ str_replace old new post"
      using False P(1) pp(3) by (simp add: starts_with_prefix)
    ultimately show ?thesis by blast
  qed
qed

lemma str_replace_id:
  "old \<noteq> [] \<Longrightarrow> \<not> sublist old s \<Longrightarrow> str_replace old new s = s"
proof (induction old new s rule: str_replace.induct)
  case (1 old new)
  then show ?case by simp
next
  case (2 old new c cs)
  then show ?case
    by (auto simp: starts_with_prefix sublist_Cons_right)
qed

lemma str_replace_longer:
  assumes "old \<noteq> []" and "length old < length new" and "sublist old s"
  shows "length s < length (str_replace old new s)"
proof -
  from str_replace_leftmost [OF assms(1) assms(3), of new] obtain pre post where
    pp: "s = pre @ old @ post" "str_replace old new s = pre @ new @ str_replace old new post"
    by blast
  have "length post \<le> length (str_replace old new post)"
    using assms(1,2) by (simp add: str_replace_length_le)
  with pp assms(2) show ?thesis by simp
qed

lemma str_replace_at_occurrence:
  assumes ne: "old \<noteq> []" and border: "overlap_free (tl old) old"
  shows "\<not> sublist old u \<Longrightarrow>
    str_replace old new (u @ old @ rest) = u @ new @ str_replace old new rest"
proof (induction u)
  case Nil
  from ne obtain c cs where "old @ rest = c # cs"
    by (cases old) auto
  moreover have "starts_with old (old @ rest)"
    by (simp add: starts_with_prefix)
  ultimately show ?case
    using ne by (metis append_Nil append_eq_conv_conj str_replace.simps(2))
next
  case (Cons c cs)
  then have nc: "\<not> prefix old (c # cs)" and ns: "\<not> sublist old cs"
    by (auto simp: sublist_Cons_right)
  have "\<not> prefix old ((c # cs) @ old @ rest)"
  proof
    assume "prefix old ((c # cs) @ old @ rest)"
    with nc obtain us where us: "old = (c # cs) @ us" "prefix us (old @ rest)"
      using prefix_append [of old "c # cs" "old @ rest"] by blast
    have "length us \<le> length old" using us(1) by simp
    with us(2) have "prefix us old"
      by (metis prefix_length_prefix prefixI)
    moreover have "us = drop (length cs) (tl old)"
      using us(1) by (metis append_eq_conv_conj list.sel(3) append_Cons)
    moreover have "length cs < length (tl old)"
      using us(1) nc by (cases us) auto
    ultimately show False
      using overlap_freeD [OF border] by metis
  qed
  with ne Cons.IH [OF ns] show ?case
    by (simp add: starts_with_prefix)
qed

lemma str_replace_join:
  "old \<noteq> [] \<Longrightarrow> overlap_free (tl old) old \<Longrightarrow> \<forall>p \<in> set parts. \<not> sublist old p \<Longrightarrow>
    str_replace old new (join old parts) = join new parts"
proof (induction old parts rule: join.induct)
  case (1 sep)
  then show ?case by simp
next
  case (2 sep p)
  then show ?case by (simp add: str_replace_id)
next
  case (3 sep p q ps)
  then show ?case
    using str_replace_at_occurrence [of sep p new "join sep (q # ps)"] by simp
qed

lemma join_exists:
  assumes ne: "old \<noteq> []"
  shows "\<exists>parts. parts \<noteq> [] \<and> s = join old parts \<and> (\<forall>p \<in> set parts. \<not> sublist old p)"
proof (induction s rule: length_induct)
  case (1 s)
  show ?case
  proof (cases "sublist old s")
    case False
    then have "[s] \<noteq> [] \<and> s = join old [s] \<and> (\<forall>p \<in> set [s]. \<not> sublist old p)"
      by simp
    then show ?thesis by blast
  next
    case True
    from str_replace_leftmost [OF ne True, of old] obtain pre post where
      pp: "s = pre @ old @ post" "\<not> sublist old (pre @ butlast old)"
      by blast
    have "length post < length s" using pp(1) ne by simp
    with 1 obtain parts where
      parts: "parts \<noteq> []" "post = join old parts" "\<forall>p \<in> set parts. \<not> sublist old p"
      by blast
    from pp(2) have "\<not> sublist old pre"
      by (auto simp: sublist_append)
    moreover from parts(1) have "join old (pre # parts) = pre @ old @ join old parts"
      by (cases parts) simp_all
    ultimately have "pre # parts \<noteq> [] \<and> s = join old (pre # parts) \<and>
        (\<forall>p \<in> set (pre # parts). \<not> sublist old p)"
      using pp(1) parts by simp
    then show ?thesis by blast
  qed
qed

lemma old_fragment_facts:
  "old_fragment \<noteq> []" "length old_fragment = 228"
  by (simp_all add: old_fragment_def)

lemma new_code_length: "length new_code = 652"
  by (simp add: new_code_def)

lemma new_code_no_backslash: "expand_template new_code = Some new_code"
  by (simp add: expand_template_def new_code_def)

lemma new_content_literal: "new_content content = Some (str_replace old_fragment new_code content)"
  by (simp add: new_content_def py_re_sub_def compile_old_pattern new_code_no_backslash re_sub_lits)

lemma search_literal: "py_re_search old_pattern content ml = Some (sublist old_fragment content)"
  by (simp add: py_re_search_def compile_old_pattern re_search_lits)

text \<open>
  Four facts about the two texts, by evaluation: the old fragment does not occur in the
  replacement, neither text ends with the beginning of the old fragment, and the
  replacement does not begin with an end of it.
\<close>

lemma old_not_in_new: "\<not> str_in old_fragment new_code"
  by code_simp

lemma old_tail_new: "overlap_free (tl old_fragment) new_code"
  by code_simp

lemma old_head_new: "overlap_free (tl (rev old_fragment)) (rev new_code)"
  by code_simp

lemma old_unbordered: "overlap_free (tl old_fragment) old_fragment"
  by code_simp

lemma signature_in_new: "str_in signature new_code"
  by code_simp

lemma marker_in_new: "str_in marker new_code"
  by code_simp

lemma old_fragment_shorter: "length old_fragment < length new_code"
  by (simp add: old_fragment_facts new_code_length)

lemma open_read_Inr:
  "open_read path w = Inr content \<longleftrightarrow>
     files w path = Some (Text content) \<or> files w path = Some (ReadOnly content)"
  by (auto simp: open_read_def split: option.splits fnode.splits)

lemma main_match:
  assumes "open_read target w = Inr content" and "sublist old_fragment content"
  shows "main w =
    (case open_write target (str_replace old_fragment new_code content) w of
       Inl e \<Rightarrow> (Some e, w)
     | Inr w' \<Rightarrow> (None, print msg_fixed w'))"
proof -
  have "str_replace old_fragment new_code content \<noteq> content"
    using str_replace_longer [OF old_fragment_facts(1) old_fragment_shorter assms(2)] by auto
  with assms(1) show ?thesis
    by (simp add: main_def new_content_literal)
qed

lemma main_match_writable:
  assumes "files w target = Some (Text content)" and "sublist old_fragment content"
  shows "main w = (None, w\<lparr>files := (files w)(target \<mapsto> Text (str_replace old_fragment new_code content)),
                           writes := writes w @ [(target, str_replace old_fragment new_code content)],
                           stdout := stdout w @ [msg_fixed]\<rparr>)"
proof -
  from assms(1) have "open_read target w = Inr content"
    by (simp add: open_read_Inr)
  from main_match [OF this assms(2)] assms(1) show ?thesis
    by (simp add: open_write_def print_def)
qed

lemma main_match_read_only:
  assumes "files w target = Some (ReadOnly content)" and "sublist old_fragment content"
  shows "main w = (Some PermissionError, w)"
proof -
  from assms(1) have "open_read target w = Inr content"
    by (simp add: open_read_Inr)
  from main_match [OF this assms(2)] assms(1) show ?thesis
    by (simp add: open_write_def)
qed

lemma main_no_match:
  assumes "open_read target w = Inr content" and "\<not> sublist old_fragment content"
  shows "main w = (None, w\<lparr>stdout := stdout w @
           (if str_in signature content
            then [msg_not_found, msg_found, if str_in marker content then msg_already else msg_manual]
            else [msg_not_found])\<rparr>)"
proof -
  have "str_replace old_fragment new_code content = content"
    using assms(2) by (simp add: str_replace_id old_fragment_facts)
  with assms(1) show ?thesis
    by (simp add: main_def new_content_literal print_def Let_def)
qed

lemma world_of_read: "open_read target (world_of content) = Inr content"
  by (simp add: open_read_def world_of_def)

lemma patched_no_old: "\<not> sublist old_fragment (str_replace old_fragment new_code s)"
  using old_not_in_new old_tail_new old_head_new old_fragment_shorter
  by (intro str_replace_no_old) (simp_all add: old_fragment_facts str_in_sublist)

lemma msgs_distinct:
  "msg_fixed \<noteq> msg_not_found" "msg_fixed \<noteq> msg_found" "msg_fixed \<noteq> msg_already"
  "msg_fixed \<noteq> msg_manual" "msg_manual \<noteq> msg_not_found" "msg_manual \<noteq> msg_already"
  "msg_manual \<noteq> msg_found" "msg_already \<noteq> msg_not_found" "msg_already \<noteq> msg_found"
  "msg_found \<noteq> msg_not_found"
  by (simp_all add: msg_fixed_def msg_not_found_def msg_found_def msg_already_def msg_manual_def)

lemma in_patched:
  assumes "sublist old_fragment content" and "sublist x new_code"
  shows "sublist x (str_replace old_fragment new_code content)"
proof -
  from str_replace_leftmost [OF old_fragment_facts(1) assms(1), of new_code] obtain pre post where
    "str_replace old_fragment new_code content =
       pre @ new_code @ str_replace old_fragment new_code post"
    by blast
  with assms(2) show ?thesis
    by (simp add: sublist_append)
qed

lemma replace_old_itself: "str_replace old_fragment new_code old_fragment = new_code"
  using str_replace_at_occurrence [OF old_fragment_facts(1) old_unbordered, of "[]" new_code "[]"]
  by (simp add: old_fragment_facts)

lemma old_not_in_signature: "\<not> sublist old_fragment signature"
  using sublist_length_le [of old_fragment signature]
  by (auto simp: old_fragment_facts signature_def)

lemma old_not_in_marker: "\<not> sublist old_fragment marker"
  using sublist_length_le [of old_fragment marker]
  by (auto simp: old_fragment_facts marker_def)

lemma marker_not_in_signature: "\<not> str_in marker signature"
  by code_simp

lemma signature_not_in_marker: "\<not> str_in signature marker"
  by code_simp

section \<open>The claims\<close>

text \<open>
  C1 (amended).  When the target is readable and the pattern matches its content, the new
  content is the content with the leftmost matched span replaced by the replacement
  block (and the rest of the text substituted in the same way), and it differs from
  the content.  If the file may be written, the run writes the new content to the same
  path and prints the success line; if it may not, the run ends with the permission
  error, without a write and without a line.  For every readable content, the write
  and the success line occur exactly when the new content differs from the content and
  the file may be written.
\<close>

theorem C1_match_is_rewritten_when_writable:
  assumes "open_read target w = Inr content"
  shows "(py_re_search old_pattern content True = Some True \<longrightarrow>
          (\<exists>nc pre post rest.
             new_content content = Some nc \<and> new_content post = Some rest \<and>
             content = pre @ old_fragment @ post \<and>
             \<not> sublist old_fragment (pre @ butlast old_fragment) \<and>
             nc = pre @ new_code @ rest \<and> nc \<noteq> content \<and>
             (files w target = Some (Text content) \<longrightarrow>
                main w = (None, w\<lparr>files := (files w)(target \<mapsto> Text nc),
                                   writes := writes w @ [(target, nc)],
                                   stdout := stdout w @ [msg_fixed]\<rparr>)) \<and>
             (files w target = Some (ReadOnly content) \<longrightarrow>
                main w = (Some PermissionError, w)))) \<and>
         (\<exists>nc lines.
             new_content content = Some nc \<and> stdout (snd (main w)) = stdout w @ lines \<and>
             (if nc \<noteq> content \<and> files w target = Some (Text content)
              then fst (main w) = None \<and>
                   files (snd (main w)) = (files w)(target \<mapsto> Text nc) \<and>
                   writes (snd (main w)) = writes w @ [(target, nc)] \<and> lines = [msg_fixed]
              else files (snd (main w)) = files w \<and> writes (snd (main w)) = writes w \<and>
                   msg_fixed \<notin> set lines))"
proof (intro conjI impI)
  assume "py_re_search old_pattern content True = Some True"
  then have occ: "sublist old_fragment content"
    by (simp add: search_literal)
  from str_replace_leftmost [OF old_fragment_facts(1) occ, of new_code] obtain pre post where
    pp: "content = pre @ old_fragment @ post"
      "\<not> sublist old_fragment (pre @ butlast old_fragment)"
      "str_replace old_fragment new_code content =
         pre @ new_code @ str_replace old_fragment new_code post"
    by blast
  have "str_replace old_fragment new_code content \<noteq> content"
    using str_replace_longer [OF old_fragment_facts(1) old_fragment_shorter occ] by auto
  with pp main_match_writable [OF _ occ, of w] main_match_read_only [OF _ occ, of w]
  show "\<exists>nc pre post rest.
             new_content content = Some nc \<and> new_content post = Some rest \<and>
             content = pre @ old_fragment @ post \<and>
             \<not> sublist old_fragment (pre @ butlast old_fragment) \<and>
             nc = pre @ new_code @ rest \<and> nc \<noteq> content \<and>
             (files w target = Some (Text content) \<longrightarrow>
                main w = (None, w\<lparr>files := (files w)(target \<mapsto> Text nc),
                                   writes := writes w @ [(target, nc)],
                                   stdout := stdout w @ [msg_fixed]\<rparr>)) \<and>
             (files w target = Some (ReadOnly content) \<longrightarrow>
                main w = (Some PermissionError, w))"
    by (simp add: new_content_literal) metis
next
  let ?nc = "str_replace old_fragment new_code content"
  show "\<exists>nc lines.
             new_content content = Some nc \<and> stdout (snd (main w)) = stdout w @ lines \<and>
             (if nc \<noteq> content \<and> files w target = Some (Text content)
              then fst (main w) = None \<and>
                   files (snd (main w)) = (files w)(target \<mapsto> Text nc) \<and>
                   writes (snd (main w)) = writes w @ [(target, nc)] \<and> lines = [msg_fixed]
              else files (snd (main w)) = files w \<and> writes (snd (main w)) = writes w \<and>
                   msg_fixed \<notin> set lines)"
  proof (cases "sublist old_fragment content")
    case True
    have ne: "?nc \<noteq> content"
      using str_replace_longer [OF old_fragment_facts(1) old_fragment_shorter True] by auto
    from assms consider "files w target = Some (Text content)"
      | "files w target = Some (ReadOnly content)"
      by (auto simp: open_read_Inr)
    then show ?thesis
    proof cases
      case 1
      with main_match_writable [OF 1 True] ne show ?thesis
        by (simp add: new_content_literal)
    next
      case 2
      with main_match_read_only [OF 2 True] ne show ?thesis
        by (simp add: new_content_literal)
    qed
  next
    case False
    have "?nc = content"
      using False by (simp add: str_replace_id old_fragment_facts)
    with main_no_match [OF assms False] show ?thesis
      by (simp add: new_content_literal msgs_distinct)
  qed
qed

theorem C1_witness:
  "open_read target (world_of old_fragment) = Inr old_fragment \<and>
   py_re_search old_pattern old_fragment True = Some True \<and>
   new_content old_fragment = Some new_code \<and>
   main (world_of old_fragment) =
     (None, \<lparr>files = [target \<mapsto> Text new_code], writes = [(target, new_code)],
             stdout = [msg_fixed]\<rparr>)"
proof -
  have h1: "open_read target (world_of old_fragment) = Inr old_fragment"
    by (rule world_of_read)
  have h2: "py_re_search old_pattern old_fragment True = Some True"
    by (simp add: search_literal)
  have h3: "files (world_of old_fragment) target = Some (Text old_fragment)"
    by (simp add: world_of_def)
  have nc: "new_content old_fragment = Some new_code"
    by (simp add: new_content_literal replace_old_itself)
  from C1_match_is_rewritten_when_writable [OF h1] h2 h3 obtain nc' where
    "new_content old_fragment = Some nc'"
    "main (world_of old_fragment) =
       (None, (world_of old_fragment)\<lparr>files := (files (world_of old_fragment))(target \<mapsto> Text nc'),
                writes := writes (world_of old_fragment) @ [(target, nc')],
                stdout := stdout (world_of old_fragment) @ [msg_fixed]\<rparr>)"
    by blast
  with nc h1 h2 show ?thesis
    by (simp add: world_of_def)
qed

text \<open>
  As stated for every content in which the pattern matches, the claim fails on a
  read-only file that holds the old fragment: the pattern matches, the new content
  differs, and opening the file for writing raises, so that nothing is written and
  nothing is printed.
\<close>

theorem C1_read_only_counterexample:
  "open_read target (read_only_world old_fragment) = Inr old_fragment \<and>
   py_re_search old_pattern old_fragment True = Some True \<and>
   new_content old_fragment = Some new_code \<and>
   main (read_only_world old_fragment) = (Some PermissionError, read_only_world old_fragment) \<and>
   writes (snd (main (read_only_world old_fragment))) = [] \<and>
   stdout (snd (main (read_only_world old_fragment))) = []"
proof -
  have h: "files (read_only_world old_fragment) target = Some (ReadOnly old_fragment)"
    by (simp add: read_only_world_def)
  have "sublist old_fragment old_fragment"
    by simp
  from main_match_read_only [OF h this] h show ?thesis
    by (simp add: open_read_Inr search_literal new_content_literal replace_old_itself)
      (simp add: read_only_world_def)
qed

text \<open>
  C2.  When the pattern does not match the content, the computed text is the content
  itself, nothing is written, and the files are as before the run.
\<close>

theorem C2_no_match_no_write:
  assumes "open_read target w = Inr content"
    and "py_re_search old_pattern content True = Some False"
  shows "new_content content = Some content \<and> fst (main w) = None \<and>
         files (snd (main w)) = files w \<and> writes (snd (main w)) = writes w"
proof -
  from assms(2) have no: "\<not> sublist old_fragment content"
    by (simp add: search_literal)
  then have "str_replace old_fragment new_code content = content"
    by (simp add: str_replace_id old_fragment_facts)
  with main_no_match [OF assms(1) no] show ?thesis
    by (simp add: new_content_literal)
qed

theorem C2_witness:
  "open_read target (world_of signature) = Inr signature \<and>
   py_re_search old_pattern signature True = Some False \<and>
   new_content signature = Some signature \<and>
   fst (main (world_of signature)) = None \<and>
   files (snd (main (world_of signature))) = [target \<mapsto> Text signature] \<and>
   writes (snd (main (world_of signature))) = []"
proof -
  have h1: "open_read target (world_of signature) = Inr signature"
    by (rule world_of_read)
  have h2: "py_re_search old_pattern signature True = Some False"
    by (simp add: search_literal old_not_in_signature)
  from C2_no_match_no_write [OF h1 h2] h1 h2 show ?thesis
    by (simp add: world_of_def)
qed

text \<open>
  C3.  After a successful run on a matching content, the pattern no longer matches the
  file, and a second run leaves the text as it is, writes nothing, finds the marker and
  prints the not-found line, the found line and the already-patched line.
\<close>

theorem C3_second_run_reports_patched:
  assumes "open_read target w = Inr content"
    and "py_re_search old_pattern content True = Some True"
    and "fst (main w) = None"
  shows "\<exists>nc. new_content content = Some nc \<and>
           files (snd (main w)) target = Some (Text nc) \<and>
           py_re_search old_pattern nc True = Some False \<and>
           new_content nc = Some nc \<and> str_in marker nc \<and>
           main (snd (main w)) =
             (None, (snd (main w))\<lparr>stdout := stdout (snd (main w)) @
                                      [msg_not_found, msg_found, msg_already]\<rparr>)"
proof -
  let ?nc = "str_replace old_fragment new_code content"
  from assms(2) have occ: "sublist old_fragment content"
    by (simp add: search_literal)
  have wr: "files w target = Some (Text content)"
  proof (rule ccontr)
    assume "files w target \<noteq> Some (Text content)"
    with assms(1) have "files w target = Some (ReadOnly content)"
      by (simp add: open_read_Inr)
    from main_match_read_only [OF this occ] assms(3) show False
      by simp
  qed
  have fl: "files (snd (main w)) target = Some (Text ?nc)"
    using main_match_writable [OF wr occ] by simp
  then have rd: "open_read target (snd (main w)) = Inr ?nc"
    by (simp add: open_read_Inr)
  have no: "\<not> sublist old_fragment ?nc"
    by (rule patched_no_old)
  have sig: "str_in signature ?nc" and mark: "str_in marker ?nc"
    using in_patched [OF occ] signature_in_new marker_in_new
    by (simp_all add: str_in_sublist)
  have "str_replace old_fragment new_code ?nc = ?nc"
    using no by (simp add: str_replace_id old_fragment_facts)
  with main_no_match [OF rd no] fl no sig mark show ?thesis
    by (simp add: new_content_literal search_literal)
qed

theorem C3_witness:
  "open_read target (world_of old_fragment) = Inr old_fragment \<and>
   py_re_search old_pattern old_fragment True = Some True \<and>
   fst (main (world_of old_fragment)) = None \<and>
   py_re_search old_pattern new_code True = Some False \<and>
   main (snd (main (world_of old_fragment))) =
     (None, \<lparr>files = [target \<mapsto> Text new_code], writes = [(target, new_code)],
             stdout = [msg_fixed, msg_not_found, msg_found, msg_already]\<rparr>)"
proof -
  have h0: "files (world_of old_fragment) target = Some (Text old_fragment)"
    by (simp add: world_of_def)
  have h1: "open_read target (world_of old_fragment) = Inr old_fragment"
    by (rule world_of_read)
  have h2: "py_re_search old_pattern old_fragment True = Some True"
    by (simp add: search_literal)
  have first: "main (world_of old_fragment) =
      (None, \<lparr>files = [target \<mapsto> Text new_code], writes = [(target, new_code)],
              stdout = [msg_fixed]\<rparr>)"
    using main_match_writable [OF h0] by (simp add: world_of_def replace_old_itself)
  then have h3: "fst (main (world_of old_fragment)) = None"
    by simp
  from C3_second_run_reports_patched [OF h1 h2 h3] first h1 h2 h3 show ?thesis
    by (simp add: new_content_literal replace_old_itself)
qed

text \<open>
  C4.  A content with the signature, without a match of the pattern and without the
  marker is left as it is: the run writes nothing and prints the not-found line, the
  found line and the manual-intervention line.
\<close>

theorem C4_unmatched_signature_manual:
  assumes "open_read target w = Inr content"
    and "str_in signature content"
    and "py_re_search old_pattern content True = Some False"
    and "\<not> str_in marker content"
  shows "main w = (None, w\<lparr>stdout := stdout w @ [msg_not_found, msg_found, msg_manual]\<rparr>)"
proof -
  from assms(3) have no: "\<not> sublist old_fragment content"
    by (simp add: search_literal)
  from main_no_match [OF assms(1) no] assms(2,4) show ?thesis
    by simp
qed

theorem C4_witness:
  "open_read target (world_of signature) = Inr signature \<and>
   str_in signature signature \<and>
   py_re_search old_pattern signature True = Some False \<and>
   \<not> str_in marker signature \<and>
   main (world_of signature) =
     (None, \<lparr>files = [target \<mapsto> Text signature], writes = [],
             stdout = [msg_not_found, msg_found, msg_manual]\<rparr>)"
proof -
  have h1: "open_read target (world_of signature) = Inr signature"
    by (rule world_of_read)
  have h2: "str_in signature signature"
    by (simp add: str_in_sublist)
  have h3: "py_re_search old_pattern signature True = Some False"
    by (simp add: search_literal old_not_in_signature)
  have h4: "\<not> str_in marker signature"
    by (rule marker_not_in_signature)
  from C4_unmatched_signature_manual [OF h1 h2 h3 h4] h1 h2 h3 h4 show ?thesis
    by (simp add: world_of_def)
qed

text \<open>
  C5 (amended).  When no substitution occurred and the marker is in the content, the
  script prints the already-patched line (after the not-found line and the found line)
  if the signature is in the content too; if the signature is absent, the marker is
  not looked at and the not-found line is all that is printed.
\<close>

theorem C5_already_patched_needs_signature:
  assumes "open_read target w = Inr content"
    and "new_content content = Some content"
    and "str_in marker content"
  shows "(str_in signature content \<longrightarrow>
            main w = (None, w\<lparr>stdout := stdout w @ [msg_not_found, msg_found, msg_already]\<rparr>)) \<and>
         (\<not> str_in signature content \<longrightarrow>
            main w = (None, w\<lparr>stdout := stdout w @ [msg_not_found]\<rparr>))"
proof -
  have no: "\<not> sublist old_fragment content"
  proof
    assume "sublist old_fragment content"
    from str_replace_longer [OF old_fragment_facts(1) old_fragment_shorter this] assms(2)
    show False by (simp add: new_content_literal)
  qed
  from main_no_match [OF assms(1) no] assms(3) show ?thesis
    by simp
qed

theorem C5_witness:
  "open_read target (world_of new_code) = Inr new_code \<and>
   new_content new_code = Some new_code \<and> str_in marker new_code \<and>
   str_in signature new_code \<and>
   main (world_of new_code) =
     (None, \<lparr>files = [target \<mapsto> Text new_code], writes = [],
             stdout = [msg_not_found, msg_found, msg_already]\<rparr>)"
proof -
  have h1: "open_read target (world_of new_code) = Inr new_code"
    by (rule world_of_read)
  have h2: "new_content new_code = Some new_code"
    using old_not_in_new
    by (simp add: new_content_literal str_replace_id old_fragment_facts str_in_sublist)
  from C5_already_patched_needs_signature [OF h1 h2 marker_in_new] h1 h2
    marker_in_new signature_in_new
  show ?thesis
    by (simp add: world_of_def)
qed

text \<open>
  The claim as stated fails on a content that holds the marker and not the signature:
  the marker is looked for only after the signature has been found, so only the
  not-found line is printed.
\<close>

theorem C5_marker_without_signature_counterexample:
  "new_content marker = Some marker \<and> str_in marker marker \<and>
   \<not> str_in signature marker \<and>
   main (world_of marker) =
     (None, \<lparr>files = [target \<mapsto> Text marker], writes = [], stdout = [msg_not_found]\<rparr>) \<and>
   msg_already \<notin> set [msg_not_found]"
proof -
  from main_no_match [OF world_of_read old_not_in_marker] show ?thesis
    by (simp add: world_of_def new_content_literal str_replace_id old_fragment_facts
        old_not_in_marker signature_not_in_marker msgs_distinct str_in_sublist [of marker marker])
qed

text \<open>
  C6.  In the logic of the replacement text, with an update whose \<^verbatim>\<open>canvas\<close> is truthy
  (as every canvas object is): the new update carries the version of the update when
  that is neither \<^verbatim>\<open>undefined\<close> nor \<^verbatim>\<open>null\<close>; otherwise the version of the layer plus one,
  a missing or falsy version of the layer counting as zero.  Without \<^verbatim>\<open>canvas\<close> the update
  is passed on as it is.  The layer with the matching id becomes the layer overlaid
  with the new update; the other layers stay.
\<close>

theorem C6_version_logic:
  "(truthy (js_get updates ''canvas'') \<and> \<not> nullish (js_get updates ''version'') \<longrightarrow>
      newUpdates layer updates = Some (updates(''version'' \<mapsto> js_get updates ''version''))) \<and>
   (truthy (js_get updates ''canvas'') \<and> nullish (js_get updates ''version'') \<and>
    js_get layer ''version'' = JNum v \<and> safe_integer v \<and> safe_integer (v + 1) \<longrightarrow>
      newUpdates layer updates = Some (updates(''version'' \<mapsto> JNum (v + 1)))) \<and>
   (truthy (js_get updates ''canvas'') \<and> nullish (js_get updates ''version'') \<and>
    \<not> truthy (js_get layer ''version'') \<longrightarrow>
      newUpdates layer updates = Some (updates(''version'' \<mapsto> JNum 1))) \<and>
   (\<not> truthy (js_get updates ''canvas'') \<longrightarrow> newUpdates layer updates = Some updates) \<and>
   (strict_eq (js_get layer ''id'') ident \<and> newUpdates layer updates = Some nu \<longrightarrow>
      map_layer ident updates layer = Some (layer ++ nu)) \<and>
   (\<not> strict_eq (js_get layer ''id'') ident \<longrightarrow> map_layer ident updates layer = Some layer)"
  by (auto simp: newUpdates_def map_layer_def js_get_def safe_integer_def)

theorem C6_witness:
  "newUpdates [''id'' \<mapsto> JStr ''a'', ''version'' \<mapsto> JNum 3] [''canvas'' \<mapsto> JObj 0] =
     Some [''canvas'' \<mapsto> JObj 0, ''version'' \<mapsto> JNum 4] \<and>
   newUpdates [''id'' \<mapsto> JStr ''a'', ''version'' \<mapsto> JNum 3]
       [''canvas'' \<mapsto> JObj 0, ''version'' \<mapsto> JNum 9] =
     Some [''canvas'' \<mapsto> JObj 0, ''version'' \<mapsto> JNum 9] \<and>
   newUpdates [''id'' \<mapsto> JStr ''a''] [''canvas'' \<mapsto> JObj 0] =
     Some [''canvas'' \<mapsto> JObj 0, ''version'' \<mapsto> JNum 1] \<and>
   newUpdates [''id'' \<mapsto> JStr ''a'', ''version'' \<mapsto> JNum 3] [''name'' \<mapsto> JStr ''b''] =
     Some [''name'' \<mapsto> JStr ''b''] \<and>
   map_layer (JStr ''a'') [''canvas'' \<mapsto> JObj 0]
       [''id'' \<mapsto> JStr ''a'', ''version'' \<mapsto> JNum 3] =
     Some [''id'' \<mapsto> JStr ''a'', ''version'' \<mapsto> JNum 4, ''canvas'' \<mapsto> JObj 0]"
proof -
  let ?layer = "[''id'' \<mapsto> JStr ''a'', ''version'' \<mapsto> JNum 3]"
  have a: "newUpdates ?layer [''canvas'' \<mapsto> JObj 0] =
      Some [''canvas'' \<mapsto> JObj 0, ''version'' \<mapsto> JNum 4]"
    using C6_version_logic [of "[''canvas'' \<mapsto> JObj 0]" ?layer 3]
    by (simp add: js_get_def safe_integer_def)
  have b: "newUpdates ?layer [''canvas'' \<mapsto> JObj 0, ''version'' \<mapsto> JNum 9] =
      Some [''canvas'' \<mapsto> JObj 0, ''version'' \<mapsto> JNum 9]"
    using C6_version_logic [of "[''canvas'' \<mapsto> JObj 0, ''version'' \<mapsto> JNum 9]" ?layer]
    by (simp add: js_get_def)
  have c: "newUpdates [''id'' \<mapsto> JStr ''a''] [''canvas'' \<mapsto> JObj 0] =
      Some [''canvas'' \<mapsto> JObj 0, ''version'' \<mapsto> JNum 1]"
    using C6_version_logic [of "[''canvas'' \<mapsto> JObj 0]" "[''id'' \<mapsto> JStr ''a'']"]
    by (simp add: js_get_def)
  have d: "newUpdates ?layer [''name'' \<mapsto> JStr ''b''] = Some [''name'' \<mapsto> JStr ''b'']"
    using C6_version_logic [of "[''name'' \<mapsto> JStr ''b'']" ?layer]
    by (simp add: js_get_def)
  have e: "map_layer (JStr ''a'') [''canvas'' \<mapsto> JObj 0] ?layer =
      Some [''id'' \<mapsto> JStr ''a'', ''version'' \<mapsto> JNum 4, ''canvas'' \<mapsto> JObj 0]"
    using C6_version_logic [of "[''canvas'' \<mapsto> JObj 0]" ?layer 3 "JStr ''a''"
        "[''canvas'' \<mapsto> JObj 0, ''version'' \<mapsto> JNum 4]"] a
    by (auto simp: js_get_def fun_eq_iff map_add_def)
  from a b c d e show ?thesis by simp
qed

text \<open>
  C7 (amended).  Whatever the world, the lines a run prints are drawn from five: the
  success line, the not-found line, the found line, the already-patched line and the
  manual-intervention line.  No run prints a line outside these five.
\<close>

theorem C7_five_status_lines:
  "\<exists>lines. stdout (snd (main w)) = stdout w @ lines \<and>
     set lines \<subseteq> {msg_fixed, msg_not_found, msg_found, msg_already, msg_manual}"
proof (cases "open_read target w")
  case (Inl e)
  then have "main w = (Some e, w)"
    by (simp add: main_def)
  then show ?thesis by simp
next
  case (Inr content)
  show ?thesis
  proof (cases "sublist old_fragment content")
    case True
    from Inr consider "files w target = Some (Text content)"
      | "files w target = Some (ReadOnly content)"
      by (auto simp: open_read_Inr)
    then show ?thesis
    proof cases
      case 1
      from main_match_writable [OF 1 True] show ?thesis by simp
    next
      case 2
      from main_match_read_only [OF 2 True] show ?thesis by simp
    qed
  next
    case False
    from main_no_match [OF Inr False] show ?thesis by simp
  qed
qed

theorem C7_witness:
  "\<exists>lines. stdout (snd (main (world_of signature))) = lines \<and>
     set lines \<subseteq> {msg_fixed, msg_not_found, msg_found, msg_already, msg_manual}"
  using C7_five_status_lines [of "world_of signature"]
  by (simp add: world_of_def)

text \<open>
  The claim as stated fails on a content that is just the signature: the run prints the
  found line and the manual-intervention line, neither of which is among the three.
\<close>

theorem C7_manual_line_counterexample:
  "main (world_of signature) =
     (None, \<lparr>files = [target \<mapsto> Text signature], writes = [],
             stdout = [msg_not_found, msg_found, msg_manual]\<rparr>) \<and>
   msg_manual \<notin> {msg_fixed, msg_not_found, msg_already} \<and>
   msg_found \<notin> {msg_fixed, msg_not_found, msg_already}"
proof -
  have "str_in signature signature"
    by (simp add: str_in_sublist)
  with main_no_match [OF world_of_read old_not_in_signature] marker_not_in_signature show ?thesis
    using msgs_distinct by (simp add: world_of_def)
qed

text \<open>
  C8.  When reading the target fails (no such file, no permission, or text that does not
  decode), the run ends with that exception and the world is as before: no write, no
  status line.
\<close>

theorem C8_read_failure_aborts:
  "(open_read target w = Inl e \<longrightarrow> main w = (Some e, w)) \<and>
   (files w target = None \<longrightarrow> main w = (Some FileNotFoundError, w)) \<and>
   (files w target = Some Unreadable \<longrightarrow> main w = (Some PermissionError, w)) \<and>
   (files w target = Some Undecodable \<longrightarrow> main w = (Some UnicodeDecodeError, w))"
  by (simp add: main_def open_read_def)

theorem C8_witness:
  "files \<lparr>files = Map.empty, writes = [], stdout = []\<rparr> target = None \<and>
   main \<lparr>files = Map.empty, writes = [], stdout = []\<rparr> =
     (Some FileNotFoundError, \<lparr>files = Map.empty, writes = [], stdout = []\<rparr>) \<and>
   files \<lparr>files = [target \<mapsto> Undecodable], writes = [], stdout = []\<rparr> target = Some Undecodable \<and>
   main \<lparr>files = [target \<mapsto> Undecodable], writes = [], stdout = []\<rparr> =
     (Some UnicodeDecodeError, \<lparr>files = [target \<mapsto> Undecodable], writes = [], stdout = []\<rparr>)"
  using C8_read_failure_aborts [of "\<lparr>files = Map.empty, writes = [], stdout = []\<rparr>"]
    C8_read_failure_aborts [of "\<lparr>files = [target \<mapsto> Undecodable], writes = [], stdout = []\<rparr>"]
  by simp

text \<open>
  C9.  The pattern compiles to the characters of the old fragment and nothing else, so
  with or without \<^verbatim>\<open>re.MULTILINE\<close> it matches a content exactly when the old fragment is
  a contiguous part of it, and the substitution is the literal replacement of the old
  fragment by the replacement text.
\<close>

theorem C9_regex_is_literal_replacement:
  "compile old_pattern = Some (map Lit old_fragment) \<and>
   py_re_search old_pattern content ml = Some (sublist old_fragment content) \<and>
   py_re_sub old_pattern new_code content ml = Some (str_replace old_fragment new_code content)"
  by (simp add: search_literal py_re_sub_def compile_old_pattern new_code_no_backslash re_sub_lits)

theorem C9_witness:
  "py_re_search old_pattern (''ab'' @ old_fragment @ ''cd'') True = Some True \<and>
   py_re_search old_pattern (''ab'' @ old_fragment @ ''cd'') False = Some True \<and>
   py_re_sub old_pattern new_code (''ab'' @ old_fragment @ ''cd'') True =
     Some (''ab'' @ new_code @ ''cd'') \<and>
   py_re_search old_pattern new_code True = Some False \<and>
   py_re_sub old_pattern new_code new_code True = Some new_code"
proof -
  have h: "\<not> sublist old_fragment ''ab''" "\<not> sublist old_fragment ''cd''"
    using sublist_length_le [of old_fragment "''ab''"] sublist_length_le [of old_fragment "''cd''"]
    by (auto simp: old_fragment_facts)
  have r: "str_replace old_fragment new_code (''ab'' @ old_fragment @ ''cd'') = ''ab'' @ new_code @ ''cd''"
    using str_replace_at_occurrence [OF old_fragment_facts(1) old_unbordered h(1), of new_code "''cd''"]
      str_replace_id [OF old_fragment_facts(1) h(2), of new_code]
    by (simp del: str_replace.simps)
  have n: "\<not> sublist old_fragment new_code"
    using old_not_in_new by (simp add: str_in_sublist)
  have occ: "sublist old_fragment (''ab'' @ old_fragment @ ''cd'')"
    by (rule sublist_appendI)
  from C9_regex_is_literal_replacement [of "''ab'' @ old_fragment @ ''cd''" True]
    C9_regex_is_literal_replacement [of "''ab'' @ old_fragment @ ''cd''" False]
    C9_regex_is_literal_replacement [of new_code True] r n occ
  show ?thesis
    by (simp add: str_replace_id old_fragment_facts)
qed

text \<open>
  C10.  A content made of parts without the old fragment, joined by the old fragment,
  becomes the same parts joined by the replacement: every occurrence is replaced in
  one run.  Every content is such a join.
\<close>

theorem C10_every_occurrence_replaced:
  "((\<forall>p \<in> set parts. \<not> sublist old_fragment p) \<longrightarrow>
      new_content (join old_fragment parts) = Some (join new_code parts)) \<and>
   (\<exists>ps. ps \<noteq> [] \<and> content = join old_fragment ps \<and>
      (\<forall>p \<in> set ps. \<not> sublist old_fragment p) \<and>
      new_content content = Some (join new_code ps))"
proof (intro conjI impI)
  assume "\<forall>p \<in> set parts. \<not> sublist old_fragment p"
  then show "new_content (join old_fragment parts) = Some (join new_code parts)"
    by (simp add: new_content_literal str_replace_join old_fragment_facts old_unbordered)
next
  from join_exists [OF old_fragment_facts(1), of content] obtain ps where
    ps: "ps \<noteq> []" "content = join old_fragment ps" "\<forall>p \<in> set ps. \<not> sublist old_fragment p"
    by blast
  then have "new_content content = Some (join new_code ps)"
    by (simp add: new_content_literal str_replace_join old_fragment_facts old_unbordered)
  with ps show "\<exists>ps. ps \<noteq> [] \<and> content = join old_fragment ps \<and>
      (\<forall>p \<in> set ps. \<not> sublist old_fragment p) \<and>
      new_content content = Some (join new_code ps)"
    by blast
qed

theorem C10_witness:
  "\<not> sublist old_fragment ''a'' \<and> \<not> sublist old_fragment ''b'' \<and>
   \<not> sublist old_fragment ''c'' \<and>
   new_content (''a'' @ old_fragment @ ''b'' @ old_fragment @ ''c'') =
     Some (''a'' @ new_code @ ''b'' @ new_code @ ''c'')"
proof -
  have h: "\<forall>p \<in> set [''a'', ''b'', ''c'']. \<not> sublist old_fragment p"
    using sublist_length_le [of old_fragment "''a''"] sublist_length_le [of old_fragment "''b''"]
      sublist_length_le [of old_fragment "''c''"]
    by (auto simp: old_fragment_facts)
  from C10_every_occurrence_replaced [of "[''a'', ''b'', ''c'']"] h show ?thesis
    by simp
qed

end
